theory Spec2Isabelle
  imports Main "HOL-Library.Word" "HOL-Library.Sublist"
begin

section \<open>CatatanOnline: the note list, its storage hook and its handlers\<close>

text \<open>
  The component of \<^verbatim>\<open>src/assets/Aplikasi/CatatanOnline.jsx\<close> keeps a list of notes in a
  React state cell that the hook \<^verbatim>\<open>useLocalStorage\<close> mirrors into the browser's local
  storage, and the hook \<^verbatim>\<open>useFetch\<close> posts the list to a fixed address while the
  flag \<^verbatim>\<open>sync\<close> is raised.  The handlers are embedded as functions on an explicit
  state; the browser (storage, timers, clock, network) is part of that state.
\<close>

subsection \<open>JavaScript strings\<close>

text \<open>A JavaScript string is a sequence of UTF-16 code units.\<close>

type_synonym jsstring = "16 word list"

definition js :: "string \<Rightarrow> jsstring" where
  "js cs = map of_char cs"

text \<open>
  \<^verbatim>\<open>String.prototype.trim\<close> strips the code units of the ECMAScript productions
  WhiteSpace and LineTerminator from both ends.
\<close>

definition is_WhiteSpace :: "16 word \<Rightarrow> bool" where
  "is_WhiteSpace c \<longleftrightarrow>
     c = 0x0009 \<or> c = 0x000A \<or> c = 0x000B \<or> c = 0x000C \<or> c = 0x000D \<or> c = 0x0020 \<or>
     c = 0x00A0 \<or> c = 0x1680 \<or> (0x2000 \<le> c \<and> c \<le> 0x200A) \<or> c = 0x2028 \<or>
     c = 0x2029 \<or> c = 0x202F \<or> c = 0x205F \<or> c = 0x3000 \<or> c = 0xFEFF"

definition trim :: "jsstring \<Rightarrow> jsstring" where
  "trim s = rev (dropWhile is_WhiteSpace (rev (dropWhile is_WhiteSpace s)))"

subsection \<open>Notes\<close>

text \<open>A note is the object \<^verbatim>\<open>{ id, text }\<close>; the id is the value of \<^verbatim>\<open>Date.now()\<close>.\<close>

record Note =
  note_id :: int
  note_text :: jsstring

subsection \<open>The platform: exceptions, JSON, local storage\<close>

datatype exn = TypeError | SecurityError | QuotaExceededError

text \<open>
  \<^verbatim>\<open>JSON.stringify\<close> and \<^verbatim>\<open>JSON.parse\<close> belong to the platform, not to the repository:
  they are a parameter of the model.  \<open>parse\<close> yields \<open>None\<close> where \<^verbatim>\<open>JSON.parse\<close>
  throws.
\<close>

record 'v json =
  stringify :: "'v \<Rightarrow> jsstring"
  parse :: "jsstring \<Rightarrow> 'v option"

text \<open>
  \<^verbatim>\<open>window.localStorage\<close>: the stored items, whether access to the storage is denied
  (reading the property throws), and the user agent's decision whether a write fits
  the quota.
\<close>

record storage =
  items :: "jsstring \<rightharpoonup> jsstring"
  denied :: bool
  fits :: "jsstring \<Rightarrow> jsstring \<Rightarrow> bool"

definition getItem :: "storage \<Rightarrow> jsstring \<Rightarrow> exn + jsstring option" where
  "getItem st key = (if denied st then Inl SecurityError else Inr (items st key))"

definition setItem :: "storage \<Rightarrow> jsstring \<Rightarrow> jsstring \<Rightarrow> exn + storage" where
  "setItem st key v =
     (if denied st then Inl SecurityError
      else if \<not> fits st key v then Inl QuotaExceededError
      else Inr (st\<lparr>items := (items st)(key \<mapsto> v)\<rparr>))"

subsection \<open>useLocalStorage\<close>

text \<open>
  The initialiser of the state cell (lines 5 to 12): a missing item (\<^verbatim>\<open>null\<close>) and the
  empty string are falsy, and every exception is caught.
\<close>

definition useLocalStorage_init :: "'v json \<Rightarrow> storage \<Rightarrow> jsstring \<Rightarrow> 'v \<Rightarrow> 'v" where
  "useLocalStorage_init J st key initialValue =
     (case getItem st key of
        Inl err \<Rightarrow> initialValue
      | Inr None \<Rightarrow> initialValue
      | Inr (Some item) \<Rightarrow>
          if item = [] then initialValue
          else (case parse J item of
                  None \<Rightarrow> initialValue
                | Some v \<Rightarrow> v))"

text \<open>
  \<^verbatim>\<open>setValue\<close> (lines 14 to 23): the argument is a function of the stored value or a
  value; the state cell is set before the write to the storage, so a write that throws
  leaves the new value in the cell and the storage as it was.
\<close>

datatype 'v setter_arg = Updater "'v \<Rightarrow> 'v" | Plain 'v

definition setValue :: "'v json \<Rightarrow> jsstring \<Rightarrow> 'v setter_arg \<Rightarrow> 'v \<times> storage \<Rightarrow> 'v \<times> storage" where
  "setValue J key value cell =
     (let storedValue = fst cell;
          st = snd cell;
          valueToStore = (case value of Updater f \<Rightarrow> f storedValue | Plain v \<Rightarrow> v)
      in (valueToStore,
          case setItem st key (stringify J valueToStore) of
            Inl err \<Rightarrow> st
          | Inr st' \<Rightarrow> st'))"

subsection \<open>The component's state\<close>

datatype timer_callback = CommitInput jsstring | ResetSync

record timer =
  timer_id :: nat
  due :: int
  callback :: timer_callback

record request =
  req_url :: jsstring
  req_method :: jsstring
  req_body :: jsstring

text \<open>
  A call of a state setter that React has not rendered yet.  The array handed to
  \<^verbatim>\<open>setStoredValue\<close> comes with the number of its identity when a render has shown it
  already, and with none when no render has.
\<close>

datatype update =
  SetStoredValue "Note list" "nat option" | SetInput jsstring | SetEditId "int option" | SetSync bool

text \<open>
  The state cells of the component as last rendered (\<open>notes\<close>, \<open>input\<close>, \<open>editId\<close>,
  \<open>sync\<close>), the ref \<open>debounceTimeout\<close>, and the browser: storage, clock in milliseconds,
  pending timers, the requests handed to \<^verbatim>\<open>fetch\<close> so far.  \<open>notesIdentity\<close> stands for
  the identity of the array object held in \<open>notes\<close> (every update stores a newly built
  array; the rendered arrays are numbered in the order of their first render), and
  \<open>effectDeps\<close> for the dependencies with which the effect of \<^verbatim>\<open>useFetch\<close> last ran.
  \<open>inputTrace\<close> records every call of \<^verbatim>\<open>setInput\<close> with its time.  \<open>pending\<close> is React's
  queue of updates that wait for the transition render, in the order they were made.
\<close>

record app =
  "notes" :: "Note list"
  notesIdentity :: nat
  input :: jsstring
  editId :: "int option"
  sync :: bool
  debounceTimeout :: "nat option"
  focused :: bool
  localStorage :: storage
  clock :: int
  timers :: "timer list"
  nextTimerId :: nat
  effectDeps :: "(jsstring \<times> nat \<times> bool) option"
  requests :: "request list"
  inputTrace :: "(int \<times> jsstring) list"
  pending :: "update list"

definition API_URL :: jsstring where
  "API_URL = js ''https://jsonplaceholder.typicode.com/posts''"

definition notes_key :: jsstring where
  "notes_key = js ''catatan''"

definition setNotes :: "Note list json \<Rightarrow> (Note list \<Rightarrow> Note list) \<Rightarrow> app \<Rightarrow> app" where
  "setNotes J f s =
     (let cell = setValue J notes_key (Updater f) (notes s, localStorage s)
      in s\<lparr>notes := fst cell, notesIdentity := Suc (notesIdentity s), localStorage := snd cell\<rparr>)"

definition setInput :: "jsstring \<Rightarrow> app \<Rightarrow> app" where
  "setInput v s = s\<lparr>input := v, inputTrace := inputTrace s @ [(clock s, v)]\<rparr>"

definition setTimeout :: "timer_callback \<Rightarrow> int \<Rightarrow> app \<Rightarrow> nat \<times> app" where
  "setTimeout cb delay s =
     (nextTimerId s,
      s\<lparr>timers := timers s @ [\<lparr>timer_id = nextTimerId s, due = clock s + delay, callback = cb\<rparr>],
        nextTimerId := Suc (nextTimerId s)\<rparr>)"

definition clearTimeout :: "nat option \<Rightarrow> app \<Rightarrow> app" where
  "clearTimeout tid s = s\<lparr>timers := filter (\<lambda>t. Some (timer_id t) \<noteq> tid) (timers s)\<rparr>"

subsection \<open>The handlers\<close>

text \<open>
  Each handler is given as the state that its calls lead to once they are rendered: the
  handler reads the state cells of the last render (its closure) and the browser as it
  is.  When React renders the state updates is the matter of the next but one section.
\<close>

definition handleInput :: "jsstring \<Rightarrow> app \<Rightarrow> app" where
  "handleInput v s =
     (let s1 = clearTimeout (debounceTimeout s) s;
          scheduled = setTimeout (CommitInput v) 100 s1
      in (snd scheduled)\<lparr>debounceTimeout := Some (fst scheduled)\<rparr>)"

definition handleAddOrEdit :: "Note list json \<Rightarrow> app \<Rightarrow> app" where
  "handleAddOrEdit J s =
     (if trim (input s) = [] then s
      else
        let s1 = (case editId s of
                    Some eid \<Rightarrow>
                      (setNotes J (map (\<lambda>n. if note_id n = eid then n\<lparr>note_text := input s\<rparr> else n)) s)
                        \<lparr>editId := None\<rparr>
                  | None \<Rightarrow>
                      setNotes J (\<lambda>prev. prev @ [\<lparr>note_id = clock s, note_text = input s\<rparr>]) s);
            s2 = (setInput [] s1)\<lparr>sync := True\<rparr>
        in snd (setTimeout ResetSync 500 s2))"

definition handleEdit :: "int \<Rightarrow> app \<Rightarrow> exn + app" where
  "handleEdit i s =
     (case find (\<lambda>n. note_id n = i) (notes s) of
        None \<Rightarrow> Inl TypeError
      | Some n \<Rightarrow> Inr ((setInput (note_text n) s)\<lparr>editId := Some i, focused := True\<rparr>))"

definition handleDelete :: "Note list json \<Rightarrow> int \<Rightarrow> app \<Rightarrow> app" where
  "handleDelete J i s =
     (let s1 = (setNotes J (filter (\<lambda>n. note_id n \<noteq> i)) s)\<lparr>sync := True\<rparr>
      in snd (setTimeout ResetSync 500 s1))"

subsection \<open>useFetch and rendering\<close>

text \<open>
  The effect of \<^verbatim>\<open>useFetch\<close> (lines 29 to 38) runs after a render whose dependencies
  \<^verbatim>\<open>[url, data, trigger]\<close> differ from those of its last run (compared by identity), and
  after the first render.  It returns at once when \<^verbatim>\<open>trigger\<close> is false and hands one
  POST request to \<^verbatim>\<open>fetch\<close> otherwise; the response is never read.
\<close>

definition useFetch :: "Note list json \<Rightarrow> jsstring \<Rightarrow> Note list \<times> nat \<Rightarrow> bool \<Rightarrow> app \<Rightarrow> app" where
  "useFetch J url dat trigger s =
     (let deps = (url, snd dat, trigger) in
      if effectDeps s = Some deps then s
      else
        let s1 = s\<lparr>effectDeps := Some deps\<rparr> in
        if \<not> trigger then s1
        else s1\<lparr>requests := requests s1 @
                 [\<lparr>req_url = url, req_method = js ''POST'', req_body = stringify J (fst dat)\<rparr>]\<rparr>)"

text \<open>One render of the component followed by its effects (line 51).\<close>

definition render :: "Note list json \<Rightarrow> app \<Rightarrow> app" where
  "render J s = useFetch J API_URL (notes s, notesIdentity s) (sync s) s"

text \<open>
  Mounting the component (lines 43 to 48): the state cells take their initial values, the
  notes are read from the storage, and the first render follows.
\<close>

definition mount :: "Note list json \<Rightarrow> storage \<Rightarrow> int \<Rightarrow> app" where
  "mount J st now =
     render J
       \<lparr>notes = useLocalStorage_init J st notes_key [], notesIdentity = 0, input = [],
        editId = None, sync = False, debounceTimeout = None, focused = False,
        localStorage = st, clock = now, timers = [], nextTimerId = 0, effectDeps = None,
        requests = [], inputTrace = [], pending = []\<rparr>"

subsection \<open>When the updates are rendered\<close>

text \<open>
  The event loop is single-threaded and each handler runs to completion.  The updates
  of \<^verbatim>\<open>handleDelete\<close>, of \<^verbatim>\<open>handleEdit\<close> and of the timer callbacks are rendered at once,
  before the next event.  \<^verbatim>\<open>handleAddOrEdit\<close> makes its updates inside
  \<^verbatim>\<open>startTransition\<close> (line 66): what it does to the browser (the write to the storage
  inside \<^verbatim>\<open>setValue\<close>, \<^verbatim>\<open>setTimeout\<close>) happens at once, while the state cells keep their
  rendered values and the updates wait in the queue for the transition render.  Until
  then every handler still sees the cells of the last render (\<^verbatim>\<open>setValue\<close> applies
  its argument to that \<^verbatim>\<open>storedValue\<close>, line 17).
\<close>

definition begin_submit :: "Note list json \<Rightarrow> app \<Rightarrow> app" where
  "begin_submit J s =
     (if trim (input s) = [] then s
      else
        let s' = handleAddOrEdit J s
        in s'\<lparr>notes := notes s, notesIdentity := notesIdentity s, editId := editId s,
              input := input s, sync := sync s,
              pending := pending s @ [SetStoredValue (notes s') None] @
                (case editId s of Some eid \<Rightarrow> [SetEditId None] | None \<Rightarrow> []) @
                [SetInput [], SetSync True]\<rparr>)"

text \<open>
  An update made outside a transition is rendered at once.  While updates of a
  transition wait, React keeps it in the queue behind them as well, so that the
  transition render applies all updates in the order they were made.
\<close>

definition rebase :: "update list \<Rightarrow> app \<Rightarrow> app" where
  "rebase us s = (if pending s = [] then s else s\<lparr>pending := pending s @ us\<rparr>)"

text \<open>
  The transition render applies the queue to the rendered cells; an array that no
  render has shown yet gets the next number.
\<close>

fun apply_update :: "nat \<Rightarrow> app \<Rightarrow> update \<Rightarrow> app" where
  "apply_update fresh s (SetStoredValue ns None) = s\<lparr>notes := ns, notesIdentity := fresh\<rparr>"
| "apply_update fresh s (SetStoredValue ns (Some k)) = s\<lparr>notes := ns, notesIdentity := k\<rparr>"
| "apply_update fresh s (SetInput v) = s\<lparr>input := v\<rparr>"
| "apply_update fresh s (SetEditId e) = s\<lparr>editId := e\<rparr>"
| "apply_update fresh s (SetSync b) = s\<lparr>sync := b\<rparr>"

definition apply_pending :: "app \<Rightarrow> app" where
  "apply_pending s = (foldl (apply_update (Suc (notesIdentity s))) s (pending s))\<lparr>pending := []\<rparr>"

definition transition_render :: "Note list json \<Rightarrow> app \<Rightarrow> app" where
  "transition_render J s = render J (apply_pending s)"

text \<open>
  A submit whose transition render comes before any other event.  A submit that the
  guard of line 65 turns away starts no transition.
\<close>

definition on_submit :: "Note list json \<Rightarrow> app \<Rightarrow> app" where
  "on_submit J s =
     (if trim (input s) = [] then render J s
      else transition_render J (begin_submit J s))"

definition on_delete :: "Note list json \<Rightarrow> int \<Rightarrow> app \<Rightarrow> app" where
  "on_delete J i s =
     (let s' = handleDelete J i s
      in render J (rebase [SetStoredValue (notes s') (Some (notesIdentity s')), SetSync True] s'))"

definition on_change :: "Note list json \<Rightarrow> jsstring \<Rightarrow> app \<Rightarrow> app" where
  "on_change J v s = render J (handleInput v s)"

text \<open>
  The two timer callbacks: \<^verbatim>\<open>() => { setInput(value) }\<close> of line 58 and
  \<^verbatim>\<open>() => setSync(false)\<close> of lines 80 and 94.
\<close>

definition run_callback :: "Note list json \<Rightarrow> timer_callback \<Rightarrow> app \<Rightarrow> app" where
  "run_callback J cb s =
     render J
       (case cb of
          CommitInput v \<Rightarrow> rebase [SetInput v] (setInput v s)
        | ResetSync \<Rightarrow> rebase [SetSync False] (s\<lparr>sync := False\<rparr>))"

text \<open>
  Letting time pass until \<open>t\<close>: the timers due by then fire in the order of their due
  times (timers with the same due time in the order they were set), each at its due
  time.  No callback of this component sets a timer, so one pass over the due timers is
  the whole loop.
\<close>

fun fire_all :: "Note list json \<Rightarrow> timer list \<Rightarrow> app \<Rightarrow> app" where
  "fire_all J [] s = s"
| "fire_all J (t # ts) s =
     fire_all J ts (run_callback J (callback t) (s\<lparr>clock := max (clock s) (due t)\<rparr>))"

definition elapse :: "Note list json \<Rightarrow> int \<Rightarrow> app \<Rightarrow> app" where
  "elapse J t s =
     (let ready = filter (\<lambda>tm. due tm \<le> t) (timers s);
          s1 = fire_all J (sort_key due ready) (s\<lparr>timers := filter (\<lambda>tm. \<not> due tm \<le> t) (timers s)\<rparr>)
      in s1\<lparr>clock := max (clock s1) t\<rparr>)"

subsection \<open>A JSON codec for note lists\<close>

text \<open>
  An instance of the codec, following the serialisation of ECMAScript for an array of
  \<^verbatim>\<open>{"id": number, "text": string}\<close> objects with integer ids:
  \<^verbatim>\<open>[{"id":1,"text":"a"},{"id":2,"text":"b"}]\<close>.  Its parser reads the texts of that
  shape and rejects every other text.
\<close>

function dec_digits :: "nat \<Rightarrow> jsstring" where
  "dec_digits n = (if n < 10 then [of_nat (48 + n)] else dec_digits (n div 10) @ [of_nat (48 + n mod 10)])"
  by pat_completeness auto
termination
  by (relation "measure id") auto

declare dec_digits.simps [simp del]

definition number_to_string :: "int \<Rightarrow> jsstring" where
  "number_to_string i = (if i < 0 then 0x2D # dec_digits (nat (- i)) else dec_digits (nat i))"

definition hex_digit :: "nat \<Rightarrow> 16 word" where
  "hex_digit d = (if d < 10 then of_nat (48 + d) else of_nat (87 + d))"

definition unicode_escape :: "16 word \<Rightarrow> jsstring" where
  "unicode_escape c =
     (let n = unat c
      in [0x5C, 0x75, hex_digit (n div 4096), hex_digit (n div 256 mod 16),
          hex_digit (n div 16 mod 16), hex_digit (n mod 16)])"

definition is_lead :: "16 word \<Rightarrow> bool" where
  "is_lead c \<longleftrightarrow> 0xD800 \<le> c \<and> c \<le> 0xDBFF"

definition is_trail :: "16 word \<Rightarrow> bool" where
  "is_trail c \<longleftrightarrow> 0xDC00 \<le> c \<and> c \<le> 0xDFFF"

definition quote_unit :: "16 word \<Rightarrow> jsstring" where
  "quote_unit c =
     (if c = 0x08 then [0x5C, 0x62]
      else if c = 0x09 then [0x5C, 0x74]
      else if c = 0x0A then [0x5C, 0x6E]
      else if c = 0x0C then [0x5C, 0x66]
      else if c = 0x0D then [0x5C, 0x72]
      else if c = 0x22 then [0x5C, 0x22]
      else if c = 0x5C then [0x5C, 0x5C]
      else if c < 0x20 \<or> is_lead c \<or> is_trail c then unicode_escape c
      else [c])"

fun quote_units :: "jsstring \<Rightarrow> jsstring" where
  "quote_units [] = []"
| "quote_units [c] = quote_unit c"
| "quote_units (c # d # cs) =
     (if is_lead c \<and> is_trail d then c # d # quote_units cs
      else quote_unit c @ quote_units (d # cs))"

definition quote_json_string :: "jsstring \<Rightarrow> jsstring" where
  "quote_json_string s = 0x22 # quote_units s @ [0x22]"

definition note_to_json :: "Note \<Rightarrow> jsstring" where
  "note_to_json n =
     js ''{'' @ quote_json_string (js ''id'') @ js '':'' @ number_to_string (note_id n) @
     js '','' @ quote_json_string (js ''text'') @ js '':'' @ quote_json_string (note_text n) @
     js ''}''"

fun join_elements :: "jsstring list \<Rightarrow> jsstring" where
  "join_elements [] = []"
| "join_elements [e] = e"
| "join_elements (e # es) = e @ 0x2C # join_elements es"

definition notes_to_json :: "Note list \<Rightarrow> jsstring" where
  "notes_to_json ns = 0x5B # join_elements (map note_to_json ns) @ [0x5D]"

definition is_digit :: "16 word \<Rightarrow> bool" where
  "is_digit c \<longleftrightarrow> 0x30 \<le> c \<and> c \<le> 0x39"

definition digits_value :: "jsstring \<Rightarrow> nat" where
  "digits_value ds = foldl (\<lambda>a d. 10 * a + (unat d - 48)) 0 ds"

definition read_nat :: "jsstring \<Rightarrow> (nat \<times> jsstring) option" where
  "read_nat cs =
     (let ds = takeWhile is_digit cs
      in if ds = [] \<or> (hd ds = 0x30 \<and> 1 < length ds) then None
         else Some (digits_value ds, dropWhile is_digit cs))"

definition read_number :: "jsstring \<Rightarrow> (int \<times> jsstring) option" where
  "read_number cs =
     (case cs of
        [] \<Rightarrow> None
      | c # cs' \<Rightarrow>
          if c = 0x2D then map_option (\<lambda>(n, r). (- int n, r)) (read_nat cs')
          else map_option (\<lambda>(n, r). (int n, r)) (read_nat cs))"

definition hex_value :: "16 word \<Rightarrow> nat option" where
  "hex_value c =
     (if 0x30 \<le> c \<and> c \<le> 0x39 then Some (unat c - 48)
      else if 0x61 \<le> c \<and> c \<le> 0x66 then Some (unat c - 87)
      else if 0x41 \<le> c \<and> c \<le> 0x46 then Some (unat c - 55)
      else None)"

definition simple_escape :: "16 word \<Rightarrow> 16 word option" where
  "simple_escape e =
     (if e = 0x22 then Some 0x22
      else if e = 0x5C then Some 0x5C
      else if e = 0x2F then Some 0x2F
      else if e = 0x62 then Some 0x08
      else if e = 0x66 then Some 0x0C
      else if e = 0x6E then Some 0x0A
      else if e = 0x72 then Some 0x0D
      else if e = 0x74 then Some 0x09
      else None)"

fun read_units :: "jsstring \<Rightarrow> (jsstring \<times> jsstring) option" where
  "read_units [] = None"
| "read_units (c # cs) =
     (if c = 0x22 then Some ([], cs)
      else if c < 0x20 then None
      else if c \<noteq> 0x5C then map_option (apfst ((#) c)) (read_units cs)
      else
        case cs of
          [] \<Rightarrow> None
        | e # cs1 \<Rightarrow>
            if e = 0x75 then
              (case cs1 of
                 h1 # h2 # h3 # h4 # cs2 \<Rightarrow>
                   (case (hex_value h1, hex_value h2, hex_value h3, hex_value h4) of
                      (Some a, Some b, Some c', Some d) \<Rightarrow>
                        map_option (apfst ((#) (of_nat (4096 * a + 256 * b + 16 * c' + d))))
                          (read_units cs2)
                    | _ \<Rightarrow> None)
               | _ \<Rightarrow> None)
            else
              (case simple_escape e of
                 None \<Rightarrow> None
               | Some u \<Rightarrow> map_option (apfst ((#) u)) (read_units cs1)))"

definition read_string :: "jsstring \<Rightarrow> (jsstring \<times> jsstring) option" where
  "read_string cs =
     (case cs of
        [] \<Rightarrow> None
      | c # cs' \<Rightarrow> if c = 0x22 then read_units cs' else None)"

definition expect :: "jsstring \<Rightarrow> jsstring \<Rightarrow> jsstring option" where
  "expect p cs = (if take (length p) cs = p then Some (drop (length p) cs) else None)"

definition read_note :: "jsstring \<Rightarrow> (Note \<times> jsstring) option" where
  "read_note cs =
     (case expect (js ''{'' @ quote_json_string (js ''id'') @ js '':'') cs of
        None \<Rightarrow> None
      | Some r1 \<Rightarrow>
     (case read_number r1 of
        None \<Rightarrow> None
      | Some (i, r2) \<Rightarrow>
     (case expect (js '','' @ quote_json_string (js ''text'') @ js '':'') r2 of
        None \<Rightarrow> None
      | Some r3 \<Rightarrow>
     (case read_string r3 of
        None \<Rightarrow> None
      | Some (t, r4) \<Rightarrow>
     (case expect (js ''}'') r4 of
        None \<Rightarrow> None
      | Some r5 \<Rightarrow> Some (\<lparr>note_id = i, note_text = t\<rparr>, r5))))))"

lemma expect_length: "expect p cs = Some r \<Longrightarrow> length r + length p = length cs"
  by (auto simp: expect_def split: if_splits) (metis add.commute le_add_diff_inverse nat_le_linear take_all)

lemma read_nat_length: "read_nat cs = Some (n, r) \<Longrightarrow> length r \<le> length cs"
  by (auto simp: read_nat_def Let_def length_dropWhile_le split: if_splits)

lemma read_number_length: "read_number cs = Some (i, r) \<Longrightarrow> length r \<le> length cs"
  by (auto simp: read_number_def split: list.splits if_splits dest!: read_nat_length)

lemma read_units_length: "read_units cs = Some (t, r) \<Longrightarrow> length r < length cs"
proof (induction cs arbitrary: t r rule: read_units.induct)
  case 1
  then show ?case by simp
next
  case (2 c cs)
  then show ?case
    by (auto split: if_splits list.splits option.splits) fastforce+
qed


lemma read_string_length: "read_string cs = Some (t, r) \<Longrightarrow> length r < length cs"
  by (auto simp: read_string_def split: list.splits if_splits dest!: read_units_length)

lemma read_note_length:
  assumes "read_note cs = Some (n, r)"
  shows "length r < length cs"
proof -
  from assms obtain r1 i r2 r3 t r4 where
    a: "expect (js ''{'' @ quote_json_string (js ''id'') @ js '':'') cs = Some r1"
    and b: "read_number r1 = Some (i, r2)"
    and c: "expect (js '','' @ quote_json_string (js ''text'') @ js '':'') r2 = Some r3"
    and d: "read_string r3 = Some (t, r4)"
    and e: "expect (js ''}'') r4 = Some r"
    by (auto simp: read_note_def split: option.splits)
  from expect_length [OF a] have "length r1 < length cs" by (simp add: js_def)
  moreover from read_number_length [OF b] have "length r2 \<le> length r1" .
  moreover from expect_length [OF c] have "length r3 \<le> length r2" by simp
  moreover from read_string_length [OF d] have "length r4 < length r3" .
  moreover from expect_length [OF e] have "length r \<le> length r4" by simp
  ultimately show ?thesis by linarith
qed

function read_elements :: "jsstring \<Rightarrow> Note list option" where
  "read_elements cs =
     (case read_note cs of
        None \<Rightarrow> None
      | Some (n, r) \<Rightarrow>
          (case r of
             [] \<Rightarrow> None
           | c # r' \<Rightarrow>
               if c = 0x5D \<and> r' = [] then Some [n]
               else if c = 0x2C then map_option ((#) n) (read_elements r')
               else None))"
  by pat_completeness auto
termination
proof (relation "measure length")
  show "wf (measure length)" by simp
next
  fix cs :: jsstring and x2 x y c r'
  assume "read_note cs = Some x2" "(x, y) = x2" "y = c # r'"
  then have "read_note cs = Some (x, c # r')" by simp
  from read_note_length [OF this] show "(r', cs) \<in> measure length" by simp
qed

declare read_elements.simps [simp del]

definition parse_notes :: "jsstring \<Rightarrow> Note list option" where
  "parse_notes cs =
     (case cs of
        [] \<Rightarrow> None
      | c # r \<Rightarrow>
          if c \<noteq> 0x5B then None
          else if r = [0x5D] then Some []
          else read_elements r)"

definition note_json :: "Note list json" where
  "note_json = \<lparr>stringify = notes_to_json, parse = parse_notes\<rparr>"

subsection \<open>Events\<close>

text \<open>
  What can happen to the mounted component: a keystroke in the input field, a submit of
  the form, a click on a note's edit or delete button, and the passing of time.  An
  exception thrown by \<^verbatim>\<open>handleEdit\<close> leaves the handler before any state is set.
  \<open>Submit\<close> is a submit together with its transition render; \<open>BeginSubmit\<close> is the
  submit alone, with the transition render still to come (the render that follows it
  shows the busy mark only and leaves the dependencies of the effect as they were), and
  \<open>TransitionRender\<close> is that render, so that other events can come between the two.
\<close>

datatype event =
  Change jsstring | Submit | Edit int | Delete int | Elapse int | BeginSubmit | TransitionRender

definition on_edit :: "Note list json \<Rightarrow> int \<Rightarrow> app \<Rightarrow> app" where
  "on_edit J i s =
     (case handleEdit i s of
        Inl err \<Rightarrow> s
      | Inr s' \<Rightarrow> render J (rebase [SetInput (input s'), SetEditId (editId s')] s'))"

fun step :: "Note list json \<Rightarrow> event \<Rightarrow> app \<Rightarrow> app" where
  "step J (Change v) s = on_change J v s"
| "step J Submit s = on_submit J s"
| "step J (Edit i) s = on_edit J i s"
| "step J (Delete i) s = on_delete J i s"
| "step J (Elapse t) s = elapse J t s"
| "step J BeginSubmit s = begin_submit J s"
| "step J TransitionRender s = transition_render J s"

text \<open>The events that reach \<^verbatim>\<open>setNotes\<close>: a delete, and a submit that passes the guard.\<close>

fun mutates :: "event \<Rightarrow> app \<Rightarrow> bool" where
  "mutates Submit s = (trim (input s) \<noteq> [])"
| "mutates BeginSubmit s = (trim (input s) \<noteq> [])"
| "mutates (Delete i) s = True"
| "mutates e s = False"

text \<open>After a render the effect's recorded dependencies are the current ones.\<close>

definition settled :: "app \<Rightarrow> bool" where
  "settled s \<longleftrightarrow> effectDeps s = Some (API_URL, notesIdentity s, sync s)"

definition post_request :: "Note list json \<Rightarrow> Note list \<Rightarrow> request" where
  "post_request J ns = \<lparr>req_url = API_URL, req_method = js ''POST'', req_body = stringify J ns\<rparr>"

text \<open>
  The scenario of four keystrokes at the times 0, 30, 60 and 90, started in a state
  whose clock reads 0.
\<close>

definition four_keystrokes ::
  "Note list json \<Rightarrow> jsstring \<Rightarrow> jsstring \<Rightarrow> jsstring \<Rightarrow> jsstring \<Rightarrow> app \<Rightarrow> app" where
  "four_keystrokes J v1 v2 v3 v4 s =
     step J (Change v4) (step J (Elapse 90)
       (step J (Change v3) (step J (Elapse 60)
         (step J (Change v2) (step J (Elapse 30)
           (step J (Change v1) s))))))"

subsection \<open>Sample states\<close>

text \<open>
  A browser whose storage works and holds two notes, the component mounted on it at
  time 5000, the same after the user typed \<^verbatim>\<open>c\<close> and the debounce delay passed, and
  after the user then clicked the edit button of the note 1000.
\<close>

definition empty_storage :: storage where
  "empty_storage = \<lparr>items = Map.empty, denied = False, fits = (\<lambda>k v. True)\<rparr>"

definition stored_notes :: "Note list" where
  "stored_notes =
     [\<lparr>note_id = 1000, note_text = js ''a''\<rparr>, \<lparr>note_id = 2000, note_text = js ''b''\<rparr>]"

definition browser_storage :: storage where
  "browser_storage = empty_storage\<lparr>items := [notes_key \<mapsto> notes_to_json stored_notes]\<rparr>"

definition mounted_app :: app where
  "mounted_app = mount note_json browser_storage 5000"

definition typing_app :: app where
  "typing_app = step note_json (Elapse 5100) (step note_json (Change (js ''c'')) mounted_app)"

definition editing_app :: app where
  "editing_app = step note_json (Edit 1000) typing_app"

text \<open>
  The note 1000 deleted while it was being edited: \<open>editId\<close> still holds its id.
\<close>

definition dangling_app :: app where
  "dangling_app = step note_json (Delete 1000) editing_app"

text \<open>
  A storage in which two notes carry the same id (two notes made within one millisecond,
  or a list written by another page), and the component mounted on it.
\<close>

definition twin_notes :: "Note list" where
  "twin_notes =
     [\<lparr>note_id = 7, note_text = js ''a''\<rparr>, \<lparr>note_id = 7, note_text = js ''b''\<rparr>]"

definition twin_storage :: storage where
  "twin_storage = empty_storage\<lparr>items := [notes_key \<mapsto> notes_to_json twin_notes]\<rparr>"

definition twin_app :: app where
  "twin_app = mount note_json twin_storage 5000"

section \<open>Properties\<close>

subsection \<open>Auxiliary facts\<close>

lemmas json_eval = notes_to_json_def note_to_json_def quote_json_string_def js_def
  number_to_string_def quote_unit_def is_lead_def is_trail_def unicode_escape_def hex_digit_def
  parse_notes_def read_note_def expect_def read_number_def read_nat_def is_digit_def
  digits_value_def read_string_def hex_value_def simple_escape_def note_json_def
  dec_digits.simps read_elements.simps

lemmas handler_defs = handleAddOrEdit_def handleDelete_def setNotes_def setValue_def
  setInput_def setTimeout_def Let_def

lemma dropWhile_all_iff: "(\<forall>x\<in>set (dropWhile P xs). P x) \<longleftrightarrow> (\<forall>x\<in>set xs. P x)"
proof
  assume a: "\<forall>x\<in>set (dropWhile P xs). P x"
  have "dropWhile P xs = []"
  proof (rule ccontr)
    assume "dropWhile P xs \<noteq> []"
    then have "\<not> P (hd (dropWhile P xs))" "hd (dropWhile P xs) \<in> set (dropWhile P xs)"
      by (simp_all add: hd_dropWhile)
    with a show False by blast
  qed
  then show "\<forall>x\<in>set xs. P x" by (simp add: dropWhile_eq_Nil_conv)
next
  assume "\<forall>x\<in>set xs. P x"
  then show "\<forall>x\<in>set (dropWhile P xs). P x" by (meson set_dropWhileD)
qed

lemma trim_empty_iff: "trim v = [] \<longleftrightarrow> list_all is_WhiteSpace v"
  by (simp add: trim_def dropWhile_eq_Nil_conv dropWhile_all_iff list_all_iff)

lemma mounted_app_eval:
  "mounted_app =
     \<lparr>notes = stored_notes, notesIdentity = 0, input = [], editId = None, sync = False,
      debounceTimeout = None, focused = False, localStorage = browser_storage, clock = 5000,
      timers = [], nextTimerId = 0, effectDeps = Some (API_URL, 0, False), requests = [],
      inputTrace = [], pending = []\<rparr>"
  by (simp add: mounted_app_def mount_def render_def useFetch_def useLocalStorage_init_def
      getItem_def browser_storage_def empty_storage_def stored_notes_def json_eval)

lemma typing_app_eval:
  "typing_app =
     \<lparr>notes = stored_notes, notesIdentity = 0, input = js ''c'', editId = None, sync = False,
      debounceTimeout = Some 0, focused = False, localStorage = browser_storage, clock = 5100,
      timers = [], nextTimerId = 1, effectDeps = Some (API_URL, 0, False), requests = [],
      inputTrace = [(5100, js ''c'')], pending = []\<rparr>"
  by (simp add: typing_app_def mounted_app_eval on_change_def handleInput_def clearTimeout_def
      setTimeout_def elapse_def run_callback_def rebase_def setInput_def render_def
      useFetch_def)

lemma editing_app_eval:
  "editing_app =
     \<lparr>notes = stored_notes, notesIdentity = 0, input = js ''a'', editId = Some 1000,
      sync = False, debounceTimeout = Some 0, focused = True, localStorage = browser_storage,
      clock = 5100, timers = [], nextTimerId = 1, effectDeps = Some (API_URL, 0, False),
      requests = [], inputTrace = [(5100, js ''c''), (5100, js ''a'')], pending = []\<rparr>"
  by (simp add: editing_app_def typing_app_eval on_edit_def handleEdit_def stored_notes_def
      rebase_def setInput_def render_def useFetch_def)

lemma twin_app_eval:
  "twin_app =
     \<lparr>notes = twin_notes, notesIdentity = 0, input = [], editId = None, sync = False,
      debounceTimeout = None, focused = False, localStorage = twin_storage, clock = 5000,
      timers = [], nextTimerId = 0, effectDeps = Some (API_URL, 0, False), requests = [],
      inputTrace = [], pending = []\<rparr>"
  by (simp add: twin_app_def mount_def render_def useFetch_def useLocalStorage_init_def
      getItem_def twin_storage_def empty_storage_def twin_notes_def json_eval)

lemma notes_render: "notes (render J s) = notes s"
  by (simp add: render_def useFetch_def Let_def)

lemma rebase_fields:
  "notes (rebase us s) = notes s"
  "notesIdentity (rebase us s) = notesIdentity s"
  "input (rebase us s) = input s"
  "inputTrace (rebase us s) = inputTrace s"
  "editId (rebase us s) = editId s"
  "sync (rebase us s) = sync s"
  "timers (rebase us s) = timers s"
  "clock (rebase us s) = clock s"
  "debounceTimeout (rebase us s) = debounceTimeout s"
  "nextTimerId (rebase us s) = nextTimerId s"
  "effectDeps (rebase us s) = effectDeps s"
  "requests (rebase us s) = requests s"
  "localStorage (rebase us s) = localStorage s"
  by (simp_all add: rebase_def)

lemma apply_update_browser:
  "timers (apply_update k s u) = timers s"
  "clock (apply_update k s u) = clock s"
  "nextTimerId (apply_update k s u) = nextTimerId s"
  "effectDeps (apply_update k s u) = effectDeps s"
  "requests (apply_update k s u) = requests s"
  "localStorage (apply_update k s u) = localStorage s"
  "inputTrace (apply_update k s u) = inputTrace s"
  "debounceTimeout (apply_update k s u) = debounceTimeout s"
  by (induction k s u rule: apply_update.induct) simp_all

lemma foldl_apply_update_browser:
  "timers (foldl (apply_update k) s us) = timers s"
  "clock (foldl (apply_update k) s us) = clock s"
  "nextTimerId (foldl (apply_update k) s us) = nextTimerId s"
  "effectDeps (foldl (apply_update k) s us) = effectDeps s"
  "requests (foldl (apply_update k) s us) = requests s"
  "localStorage (foldl (apply_update k) s us) = localStorage s"
  "inputTrace (foldl (apply_update k) s us) = inputTrace s"
  "debounceTimeout (foldl (apply_update k) s us) = debounceTimeout s"
  by (induction us arbitrary: s; simp add: apply_update_browser)+

lemma handleAddOrEdit_effect:
  "effectDeps (handleAddOrEdit J s) = effectDeps s"
  "requests (handleAddOrEdit J s) = requests s"
  "pending (handleAddOrEdit J s) = pending s"
  by (simp_all add: handleAddOrEdit_def setNotes_def setValue_def setInput_def setTimeout_def
      Let_def split: option.splits)

text \<open>
  The state that the transition render of a submit shows, whatever waited in the queue
  before: the cells that the handler set hold the handler's values.
\<close>

lemma committed_submit:
  assumes "trim (input s) \<noteq> []"
  shows "notes (apply_pending (begin_submit J s)) = notes (handleAddOrEdit J s)"
    and "notesIdentity (apply_pending (begin_submit J s)) = Suc (notesIdentity s)"
    and "input (apply_pending (begin_submit J s)) = []"
    and "sync (apply_pending (begin_submit J s))"
    and "editId s \<noteq> None \<Longrightarrow> editId (apply_pending (begin_submit J s)) = None"
    and "timers (apply_pending (begin_submit J s)) = timers (handleAddOrEdit J s)"
    and "effectDeps (apply_pending (begin_submit J s)) = effectDeps s"
    and "requests (apply_pending (begin_submit J s)) = requests s"
    and "pending (apply_pending (begin_submit J s)) = []"
  using assms
  by (auto simp: apply_pending_def begin_submit_def Let_def foldl_apply_update_browser
      handleAddOrEdit_effect split: option.splits)

lemma notes_on_submit: "notes (on_submit J s) = notes (handleAddOrEdit J s)"
proof (cases "trim (input s) = []")
  case True
  then show ?thesis by (simp add: on_submit_def notes_render handleAddOrEdit_def)
next
  case False
  then show ?thesis
    by (simp add: on_submit_def transition_render_def notes_render committed_submit)
qed

lemma length_filter_unique:
  "distinct (map f xs) \<Longrightarrow> x \<in> f ` set xs \<Longrightarrow> length (filter (\<lambda>n. f n = x) xs) = 1"
proof (induction xs)
  case Nil
  then show ?case by simp
next
  case (Cons a xs)
  show ?case
  proof (cases "f a = x")
    case True
    with Cons.prems have "x \<notin> f ` set xs" by auto
    then have "filter (\<lambda>n. f n = x) xs = []" by (auto simp: filter_empty_conv)
    with True show ?thesis by simp
  next
    case False
    with Cons show ?thesis by auto
  qed
qed

subsection \<open>Rendering and the effect\<close>

lemma render_cases:
  "render J s =
     (if settled s then s
      else if sync s then
        s\<lparr>effectDeps := Some (API_URL, notesIdentity s, True),
          requests := requests s @ [post_request J (notes s)]\<rparr>
      else s\<lparr>effectDeps := Some (API_URL, notesIdentity s, False)\<rparr>)"
  by (simp add: render_def useFetch_def settled_def post_request_def Let_def)

lemma settled_render: "settled (render J s)"
  by (simp add: render_cases) (simp add: settled_def)

lemma settled_mount: "settled (mount J st now)"
  by (simp add: mount_def settled_render)

lemma render_settled: "settled s \<Longrightarrow> render J s = s"
  by (simp add: render_cases)

lemma render_fields:
  "input (render J s) = input s"
  "inputTrace (render J s) = inputTrace s"
  "editId (render J s) = editId s"
  "sync (render J s) = sync s"
  "timers (render J s) = timers s"
  "clock (render J s) = clock s"
  "debounceTimeout (render J s) = debounceTimeout s"
  "nextTimerId (render J s) = nextTimerId s"
  "notesIdentity (render J s) = notesIdentity s"
  by (simp_all add: render_cases)

lemma render_after_setNotes:
  assumes "settled s" and "notesIdentity s' = Suc (notesIdentity s)" and "sync s'"
    and "effectDeps s' = effectDeps s" and "requests s' = requests s"
  shows "requests (render J s') = requests s @ [post_request J (notes s')]"
  using assms by (simp add: render_cases settled_def)

lemma settled_rebase: "settled (rebase us s) = settled s"
  by (simp add: settled_def rebase_fields)

lemma run_callback_settled:
  assumes "settled s"
  shows "settled (run_callback J cb s) \<and> requests (run_callback J cb s) = requests s"
proof (cases cb)
  case (CommitInput v)
  from assms have st: "settled (rebase [SetInput v] (setInput v s))"
    by (simp add: settled_rebase) (simp add: settled_def setInput_def)
  then have "render J (rebase [SetInput v] (setInput v s)) = rebase [SetInput v] (setInput v s)"
    by (rule render_settled)
  with CommitInput st show ?thesis
    by (simp add: run_callback_def rebase_fields) (simp add: setInput_def)
next
  case ResetSync
  from assms have "requests (render J (rebase [SetSync False] (s\<lparr>sync := False\<rparr>))) = requests s"
    by (simp add: render_cases settled_rebase rebase_fields)
  with ResetSync show ?thesis
    by (simp add: run_callback_def settled_render)
qed

lemma fire_all_settled:
  "settled s \<Longrightarrow> settled (fire_all J ts s) \<and> requests (fire_all J ts s) = requests s"
proof (induction ts arbitrary: s)
  case Nil
  then show ?case by simp
next
  case (Cons t ts)
  let ?s1 = "s\<lparr>clock := max (clock s) (due t)\<rparr>"
  from Cons.prems have "settled ?s1" by (simp add: settled_def)
  from run_callback_settled [OF this, of J "callback t"]
  have a: "settled (run_callback J (callback t) ?s1)"
    and b: "requests (run_callback J (callback t) ?s1) = requests s"
    by simp_all
  from Cons.IH [OF a] b show ?case by simp
qed

lemma elapse_settled:
  assumes "settled s"
  shows "settled (elapse J t s) \<and> requests (elapse J t s) = requests s"
proof -
  let ?s0 = "s\<lparr>timers := filter (\<lambda>tm. \<not> due tm \<le> t) (timers s)\<rparr>"
  from assms have "settled ?s0" by (simp add: settled_def)
  from fire_all_settled [OF this, of J "sort_key due (filter (\<lambda>tm. due tm \<le> t) (timers s))"]
  show ?thesis by (simp add: elapse_def Let_def settled_def)
qed

lemma dangling_app_eval:
  "notes dangling_app = [\<lparr>note_id = 2000, note_text = js ''b''\<rparr>]"
  "editId dangling_app = Some 1000"
  "input dangling_app = js ''a''"
  "sync dangling_app"
  "requests dangling_app = [post_request note_json [\<lparr>note_id = 2000, note_text = js ''b''\<rparr>]]"
  "timers dangling_app = [\<lparr>timer_id = 1, due = 5600, callback = ResetSync\<rparr>]"
  "nextTimerId dangling_app = 2"
  "clock dangling_app = 5100"
  "settled dangling_app"
  by (simp_all add: dangling_app_def editing_app_eval on_delete_def rebase_def handler_defs
      stored_notes_def render_cases settled_def)

lemma editId_on_submit:
  "trim (input s) \<noteq> [] \<Longrightarrow> editId s \<noteq> None \<Longrightarrow> editId (on_submit J s) = None"
  by (simp add: on_submit_def transition_render_def render_fields committed_submit)

lemma requests_on_submit:
  assumes "settled s" and "trim (input s) \<noteq> []"
  shows "requests (on_submit J s) = requests s @ [post_request J (notes (handleAddOrEdit J s))]"
  using render_after_setNotes [OF assms(1), of "apply_pending (begin_submit J s)" J] assms(2)
  by (simp add: on_submit_def transition_render_def committed_submit)

subsection \<open>The codec for note lists reads back what it writes\<close>

lemma unat_digit: "d < 10 \<Longrightarrow> unat (of_nat (48 + d) :: 16 word) = 48 + d"
  by (simp only: unat_of_nat) simp

lemma is_digit_of_nat: "d < 10 \<Longrightarrow> is_digit (of_nat (48 + d))"
  unfolding is_digit_def word_le_nat_alt
  by (simp only: unat_digit) simp

lemma dec_digits_all: "list_all is_digit (dec_digits n)"
proof (induction n rule: dec_digits.induct)
  case (1 n)
  show ?case
  proof (cases "n < 10")
    case True
    then show ?thesis
      by (subst dec_digits.simps) (simp add: is_digit_of_nat del: of_nat_add)
  next
    case False
    with 1 show ?thesis
      by (subst dec_digits.simps) (simp add: is_digit_of_nat del: of_nat_add)
  qed
qed

lemma digits_value_snoc:
  "digits_value (ds @ [c]) = 10 * digits_value ds + (unat c - 48)"
  by (simp add: digits_value_def)

lemma digits_value_dec_digits: "digits_value (dec_digits n) = n"
proof (induction n rule: dec_digits.induct)
  case (1 n)
  show ?case
  proof (cases "n < 10")
    case True
    then show ?thesis
      by (subst dec_digits.simps) (simp add: digits_value_def unat_digit del: of_nat_add)
  next
    case False
    with 1 show ?thesis
      by (subst dec_digits.simps) (simp add: digits_value_snoc unat_digit del: of_nat_add)
  qed
qed

lemma dec_digits_nonempty: "dec_digits n \<noteq> []"
  by (subst dec_digits.simps) simp

lemma hd_dec_digits: "10 \<le> n \<Longrightarrow> hd (dec_digits n) \<noteq> 0x30"
proof (induction n rule: dec_digits.induct)
  case (1 n)
  show ?case
  proof (cases "n div 10 < 10")
    case True
    with 1(2) have "dec_digits n = [of_nat (48 + n div 10), of_nat (48 + n mod 10)]"
      by (subst dec_digits.simps, subst dec_digits.simps) simp
    moreover from True 1(2) have "unat (of_nat (48 + n div 10) :: 16 word) \<noteq> unat (0x30 :: 16 word)"
      by (simp only: unat_digit) simp
    ultimately show ?thesis by (metis list.sel(1))
  next
    case False
    with 1 have "hd (dec_digits (n div 10)) \<noteq> 0x30" by simp
    with 1(2) show ?thesis
      by (subst dec_digits.simps) (simp add: dec_digits_nonempty)
  qed
qed


lemma length_dec_digits: "n < 10 \<Longrightarrow> length (dec_digits n) = 1"
  by (subst dec_digits.simps) simp

lemma takeWhile_digits:
  assumes "list_all is_digit ds" and "rest = [] \<or> \<not> is_digit (hd rest)"
  shows "takeWhile is_digit (ds @ rest) = ds" and "dropWhile is_digit (ds @ rest) = rest"
proof -
  from assms(2) have "takeWhile is_digit rest = []" "dropWhile is_digit rest = rest"
    by (cases rest; auto)+
  with assms(1) show "takeWhile is_digit (ds @ rest) = ds"
    and "dropWhile is_digit (ds @ rest) = rest"
    by (simp_all add: list_all_iff)
qed

lemma read_nat_dec_digits:
  assumes "rest = [] \<or> \<not> is_digit (hd rest)"
  shows "read_nat (dec_digits n @ rest) = Some (n, rest)"
proof -
  have lead: "\<not> (hd (dec_digits n) = 0x30 \<and> 1 < length (dec_digits n))"
  proof (cases "n < 10")
    case True
    then show ?thesis by (simp add: length_dec_digits)
  next
    case False
    then show ?thesis by (simp add: hd_dec_digits)
  qed
  from takeWhile_digits [OF dec_digits_all assms, of n] lead show ?thesis
    by (simp add: read_nat_def Let_def dec_digits_nonempty digits_value_dec_digits)
qed

lemma hd_dec_digits_digit: "is_digit (hd (dec_digits n))"
  using dec_digits_all [of n] dec_digits_nonempty [of n]
  by (cases "dec_digits n") simp_all

lemma read_number_number_to_string:
  assumes "rest = [] \<or> \<not> is_digit (hd rest)"
  shows "read_number (number_to_string i @ rest) = Some (i, rest)"
proof (cases "i < 0")
  case True
  with read_nat_dec_digits [OF assms, of "nat (- i)"] show ?thesis
    by (simp add: read_number_def number_to_string_def)
next
  case False
  obtain c cs where ds: "dec_digits (nat i) = c # cs"
    using dec_digits_nonempty [of "nat i"] by (cases "dec_digits (nat i)") auto
  with hd_dec_digits_digit [of "nat i"] have "c \<noteq> 0x2D"
    by (auto simp: is_digit_def)
  with False ds read_nat_dec_digits [OF assms, of "nat i"] show ?thesis
    by (simp add: read_number_def number_to_string_def)
qed


lemma hex_value_hex_digit: "d < 16 \<Longrightarrow> hex_value (hex_digit d) = Some d"
proof -
  assume d: "d < 16"
  have u1: "d < 10 \<Longrightarrow> unat (of_nat (48 + d) :: 16 word) = 48 + d"
    by (simp only: unat_of_nat) simp
  have u2: "unat (of_nat (87 + d) :: 16 word) = 87 + d"
    using d by (simp only: unat_of_nat) simp
  show ?thesis
  proof (cases "d < 10")
    case True
    then show ?thesis
      unfolding hex_value_def hex_digit_def word_le_nat_alt
      by (simp only: u1 if_True) simp
  next
    case False
    with d show ?thesis
      unfolding hex_value_def hex_digit_def word_le_nat_alt
      by (simp only: u2 if_False) simp
  qed
qed

lemma nibbles:
  "4096 * (n div 4096) + 256 * (n div 256 mod 16) + 16 * (n div 16 mod 16) + n mod 16 = (n::nat)"
proof -
  have d1: "n div 16 div 16 = n div 256"
    using div_mult2_eq [of n 16 16] by simp
  have d2: "n div 256 div 16 = n div 4096"
    using div_mult2_eq [of n 256 16] by simp
  have m: "16 * (m div 16) + m mod 16 = m" for m :: nat
    by (rule mult_div_mod_eq)
  from m [of n] m [of "n div 16"] m [of "n div 256"] show ?thesis
    unfolding d1 d2 by linarith
qed


lemma read_units_unicode_escape:
  "read_units (unicode_escape c @ tail) = map_option (apfst ((#) c)) (read_units tail)"
proof -
  let ?n = "unat c"
  have lt: "?n < 65536" using unsigned_less [of c, where ?'a = nat] by simp
  then have h: "hex_value (hex_digit (?n div 4096)) = Some (?n div 4096)"
    "hex_value (hex_digit (?n div 256 mod 16)) = Some (?n div 256 mod 16)"
    "hex_value (hex_digit (?n div 16 mod 16)) = Some (?n div 16 mod 16)"
    "hex_value (hex_digit (?n mod 16)) = Some (?n mod 16)"
    by (simp_all add: hex_value_hex_digit)
  have "(of_nat (4096 * (?n div 4096) + 256 * (?n div 256 mod 16) + 16 * (?n div 16 mod 16)
      + ?n mod 16) :: 16 word) = c"
    by (simp only: nibbles) simp
  with h show ?thesis
    by (simp add: unicode_escape_def Let_def del: of_nat_add of_nat_mult)
qed


lemma read_units_quote_unit:
  "read_units (quote_unit c @ tail) = map_option (apfst ((#) c)) (read_units tail)"
  by (simp add: quote_unit_def simple_escape_def read_units_unicode_escape)

lemma surrogate_literal:
  assumes "is_lead c \<or> is_trail c"
  shows "c \<noteq> 0x22" "\<not> c < 0x20" "c \<noteq> 0x5C"
  using assms by (auto simp: is_lead_def is_trail_def word_le_nat_alt word_less_nat_alt)

lemma read_units_quote_units:
  "read_units (quote_units s @ 0x22 # rest) = Some (s, rest)"
proof (induction s rule: quote_units.induct)
  case 1
  show ?case by simp
next
  case (2 c)
  show ?case by (simp add: read_units_quote_unit)
next
  case (3 c d cs)
  show ?case
  proof (cases "is_lead c \<and> is_trail d")
    case True
    then have "is_lead c \<or> is_trail c" "is_lead d \<or> is_trail d"
      by simp_all
    from surrogate_literal [OF this(1)] surrogate_literal [OF this(2)] True 3(1)
    show ?thesis by simp
  next
    case False
    then have "quote_units (c # d # cs) = quote_unit c @ quote_units (d # cs)"
      by auto
    then show ?thesis
      by (simp only: append_assoc read_units_quote_unit 3(2) [OF False]) simp
  qed
qed

lemma read_string_quote_json_string:
  "read_string (quote_json_string t @ rest) = Some (t, rest)"
  by (simp add: read_string_def quote_json_string_def read_units_quote_units)

lemma expect_append: "expect p (p @ r) = Some r"
  by (simp add: expect_def)

lemma read_note_note_to_json:
  "read_note (note_to_json n @ rest) = Some (n, rest)"
proof -
  define p1 where "p1 = js ''{'' @ quote_json_string (js ''id'') @ js '':''"
  define p2 where "p2 = js '','' @ quote_json_string (js ''text'') @ js '':''"
  have shape: "note_to_json n @ rest =
      p1 @ number_to_string (note_id n) @ p2 @ quote_json_string (note_text n) @ js ''}'' @ rest"
    by (simp add: note_to_json_def p1_def p2_def)
  have sep: "\<not> is_digit (hd (p2 @ x))" for x
    by (simp add: p2_def js_def is_digit_def)
  have num: "read_number (number_to_string (note_id n) @ p2 @ x) = Some (note_id n, p2 @ x)" for x
    by (rule read_number_number_to_string) (simp add: sep)
  have "read_note (p1 @ number_to_string (note_id n) @ p2 @ quote_json_string (note_text n) @
      js ''}'' @ rest) = Some (n, rest)"
    unfolding read_note_def p1_def [symmetric] p2_def [symmetric]
    by (simp add: expect_append num read_string_quote_json_string)
  with shape show ?thesis by simp
qed

lemma note_to_json_starts: "\<exists>tl. note_to_json n = 0x7B # tl"
  by (simp add: note_to_json_def js_def)

lemma read_elements_join:
  "read_elements (join_elements (map note_to_json (n # ns)) @ [0x5D]) = Some (n # ns)"
proof (induction ns arbitrary: n)
  case Nil
  show ?case
    by (subst read_elements.simps) (simp add: read_note_note_to_json)
next
  case (Cons m ms)
  have eq: "join_elements (map note_to_json (n # m # ms)) @ [0x5D] =
      note_to_json n @ 0x2C # join_elements (map note_to_json (m # ms)) @ [0x5D]"
    by simp
  have "read_elements (note_to_json n @ 0x2C # R) = map_option ((#) n) (read_elements R)" for R
    by (subst read_elements.simps) (simp add: read_note_note_to_json)
  then show ?case
    unfolding eq by (simp only: Cons.IH) simp
qed

lemma parse_notes_notes_to_json: "parse_notes (notes_to_json ns) = Some ns"
proof (cases ns)
  case Nil
  then show ?thesis by (simp add: parse_notes_def notes_to_json_def)
next
  case (Cons n ms)
  obtain tl where tl: "note_to_json n = 0x7B # tl"
    using note_to_json_starts by blast
  have "join_elements (map note_to_json (n # ms)) @ [0x5D] \<noteq> [0x5D]"
    by (cases ms) (simp_all add: tl)
  with Cons read_elements_join [of n ms] show ?thesis
    by (simp add: parse_notes_def notes_to_json_def del: join_elements.simps)
qed

lemma note_json_roundtrip:
  "parse note_json (stringify note_json ns) = Some ns" "stringify note_json ns \<noteq> []"
  by (simp add: note_json_def parse_notes_notes_to_json)
    (simp add: note_json_def notes_to_json_def)

subsection \<open>Adding a note\<close>

text \<open>
  C1.  In create mode (\<open>editId\<close> unset), a submit whose committed input does not trim to
  the empty string appends exactly one note to the end of the list: its text is the
  committed input and its id is the clock's millisecond value, which differs from every
  id of the list when no note already carries that value.
\<close>

theorem add_appends_fresh_note:
  assumes "editId s = None" and "trim (input s) \<noteq> []"
    and "clock s \<notin> note_id ` set (notes s)"
  shows "notes (handleAddOrEdit J s) = notes s @ [\<lparr>note_id = clock s, note_text = input s\<rparr>]
    \<and> length (notes (handleAddOrEdit J s)) = Suc (length (notes s))
    \<and> note_id (last (notes (handleAddOrEdit J s))) \<notin> note_id ` set (notes s)
    \<and> notes (step J Submit s) = notes (handleAddOrEdit J s)"
  using assms by (auto simp: handler_defs notes_on_submit)

theorem add_appends_fresh_note_witness:
  "editId typing_app = None \<and> trim (input typing_app) \<noteq> []
   \<and> clock typing_app \<notin> note_id ` set (notes typing_app)
   \<and> notes (handleAddOrEdit note_json typing_app) =
       [\<lparr>note_id = 1000, note_text = js ''a''\<rparr>, \<lparr>note_id = 2000, note_text = js ''b''\<rparr>,
        \<lparr>note_id = 5100, note_text = js ''c''\<rparr>]"
proof -
  have h1: "editId typing_app = None"
    by (simp add: typing_app_eval)
  have h2: "trim (input typing_app) \<noteq> []"
    by (simp add: typing_app_eval trim_def js_def is_WhiteSpace_def)
  have h3: "clock typing_app \<notin> note_id ` set (notes typing_app)"
    by (simp add: typing_app_eval stored_notes_def)
  from add_appends_fresh_note [OF h1 h2 h3, of note_json] h1 h2 h3 show ?thesis
    by (simp add: typing_app_eval stored_notes_def)
qed

subsection \<open>Editing a note\<close>

text \<open>
  C2.  In edit mode with \<open>editId = X\<close>, where the list holds a note with id \<open>X\<close>, a submit
  whose committed input does not trim to the empty string keeps the length of the list,
  gives every note with id \<open>X\<close> the committed input as its text, leaves every other note
  as it was and where it was, and resets \<open>editId\<close>.
\<close>

theorem edit_replaces_text_in_place:
  assumes "editId s = Some X" and "trim (input s) \<noteq> []" and "X \<in> note_id ` set (notes s)"
  shows "length (notes (handleAddOrEdit J s)) = length (notes s)
    \<and> (\<forall>i<length (notes s).
          notes (handleAddOrEdit J s) ! i =
            (if note_id (notes s ! i) = X then \<lparr>note_id = X, note_text = input s\<rparr>
             else notes s ! i))
    \<and> editId (handleAddOrEdit J s) = None
    \<and> notes (step J Submit s) = notes (handleAddOrEdit J s)
    \<and> editId (step J Submit s) = None"
  using assms by (auto simp: handler_defs notes_on_submit editId_on_submit)

theorem edit_replaces_text_in_place_witness:
  "editId editing_app = Some 1000 \<and> trim (input editing_app) \<noteq> []
   \<and> 1000 \<in> note_id ` set (notes editing_app)
   \<and> notes (handleAddOrEdit note_json (editing_app\<lparr>input := js ''z''\<rparr>)) =
       [\<lparr>note_id = 1000, note_text = js ''z''\<rparr>, \<lparr>note_id = 2000, note_text = js ''b''\<rparr>]
   \<and> editId (handleAddOrEdit note_json (editing_app\<lparr>input := js ''z''\<rparr>)) = None"
proof -
  let ?s = "editing_app\<lparr>input := js ''z''\<rparr>"
  have h1: "editId ?s = Some 1000"
    by (simp add: editing_app_eval)
  have h2: "trim (input ?s) \<noteq> []"
    by (simp add: trim_def js_def is_WhiteSpace_def)
  have h3: "1000 \<in> note_id ` set (notes ?s)"
    by (simp add: editing_app_eval stored_notes_def)
  have h4: "trim (input editing_app) \<noteq> []"
    by (simp add: editing_app_eval trim_def js_def is_WhiteSpace_def)
  have n: "notes ?s = stored_notes" "input ?s = js ''z''"
    by (simp_all add: editing_app_eval)
  from edit_replaces_text_in_place [OF h1 h2 h3, of note_json]
  have "length (notes (handleAddOrEdit note_json ?s)) = 2"
    and "\<forall>i<2. notes (handleAddOrEdit note_json ?s) ! i =
          (if note_id (stored_notes ! i) = 1000 then \<lparr>note_id = 1000, note_text = js ''z''\<rparr>
           else stored_notes ! i)"
    and e: "editId (handleAddOrEdit note_json ?s) = None"
    by (simp_all add: n stored_notes_def)
  then have "notes (handleAddOrEdit note_json ?s) =
      [\<lparr>note_id = 1000, note_text = js ''z''\<rparr>, \<lparr>note_id = 2000, note_text = js ''b''\<rparr>]"
    by (intro nth_equalityI) (auto simp: stored_notes_def less_Suc_eq numeral_2_eq_2)
  with e h1 h3 h4 show ?thesis
    by (simp add: editing_app_eval)
qed

subsection \<open>Deleting a note\<close>

lemma notes_handleDelete:
  "notes (handleDelete J i s) = filter (\<lambda>n. note_id n \<noteq> i) (notes s)"
  by (simp add: handler_defs)

text \<open>
  C3, as stated: deleting \<open>X\<close> shortens the list by exactly one when \<open>X\<close> is present.
  Ids are not kept unique, and \<^verbatim>\<open>filter\<close> drops every note with the id: on a list of two
  notes with the id 7, deleting 7 shortens the list by two.
\<close>

theorem delete_shortens_by_one_counterexample:
  "7 \<in> note_id ` set (notes twin_app)
   \<and> length (notes twin_app) = 2
   \<and> length (notes (handleDelete note_json 7 twin_app)) = 0
   \<and> length (notes (handleDelete note_json 7 twin_app)) \<noteq> length (notes twin_app) - 1"
  by (simp add: notes_handleDelete twin_app_eval twin_notes_def)

text \<open>
  C3, amended.  Deleting \<open>X\<close> yields the notes whose id is not \<open>X\<close>, in their order: no
  note with id \<open>X\<close> remains, the list is a subsequence of the old one, and it is shorter
  by the number of notes that had the id \<open>X\<close>.  That number is zero when \<open>X\<close> is absent
  (the list is then unchanged) and one when \<open>X\<close> is present and the ids of the list are
  pairwise distinct.
\<close>

theorem delete_removes_every_note_with_id:
  "notes (handleDelete J X s) = filter (\<lambda>n. note_id n \<noteq> X) (notes s)
   \<and> X \<notin> note_id ` set (notes (handleDelete J X s))
   \<and> subseq (notes (handleDelete J X s)) (notes s)
   \<and> length (notes (handleDelete J X s)) =
       length (notes s) - length (filter (\<lambda>n. note_id n = X) (notes s))
   \<and> (X \<notin> note_id ` set (notes s) \<longrightarrow> notes (handleDelete J X s) = notes s)
   \<and> (X \<in> note_id ` set (notes s) \<and> distinct (map note_id (notes s)) \<longrightarrow>
        length (notes (handleDelete J X s)) = length (notes s) - 1)
   \<and> notes (step J (Delete X) s) = notes (handleDelete J X s)"
proof -
  let ?L = "notes s"
  have eq: "notes (handleDelete J X s) = filter (\<lambda>n. note_id n \<noteq> X) ?L"
    by (rule notes_handleDelete)
  have len: "length (filter (\<lambda>n. note_id n \<noteq> X) ?L) =
      length ?L - length (filter (\<lambda>n. note_id n = X) ?L)"
    using sum_length_filter_compl [of "\<lambda>n. note_id n = X" ?L] by simp
  have absent: "X \<notin> note_id ` set ?L \<Longrightarrow> filter (\<lambda>n. note_id n \<noteq> X) ?L = ?L"
    by (auto simp: filter_id_conv)
  have one: "X \<in> note_id ` set ?L \<Longrightarrow> distinct (map note_id ?L) \<Longrightarrow>
      length (filter (\<lambda>n. note_id n = X) ?L) = 1"
    by (rule length_filter_unique)
  show ?thesis
    using len absent one by (auto simp: eq on_delete_def Let_def notes_render rebase_fields)
qed

theorem delete_removes_every_note_with_id_witness:
  "1000 \<in> note_id ` set (notes mounted_app) \<and> distinct (map note_id (notes mounted_app))
   \<and> notes (handleDelete note_json 1000 mounted_app) = [\<lparr>note_id = 2000, note_text = js ''b''\<rparr>]
   \<and> length (notes (handleDelete note_json 1000 mounted_app)) = length (notes mounted_app) - 1
   \<and> 3000 \<notin> note_id ` set (notes mounted_app)
   \<and> notes (handleDelete note_json 3000 mounted_app) = notes mounted_app"
  using delete_removes_every_note_with_id [of note_json 1000 mounted_app]
    delete_removes_every_note_with_id [of note_json 3000 mounted_app]
  by (simp add: mounted_app_eval stored_notes_def)

subsection \<open>Submitting nothing\<close>

text \<open>
  C6.  When the committed input is empty or consists of white space only (it trims to
  the empty string), a submit returns before any state is set: the state, and with it
  the note list and its length, stays as it was, in create mode and in edit mode alike,
  and no request is sent.
\<close>

theorem empty_submit_is_noop:
  assumes "list_all is_WhiteSpace (input s)"
  shows "trim (input s) = [] \<and> handleAddOrEdit J s = s
    \<and> notes (step J Submit s) = notes s
    \<and> length (notes (step J Submit s)) = length (notes s)
    \<and> (settled s \<longrightarrow> step J Submit s = s)"
proof -
  from assms have t: "trim (input s) = []" by (simp add: trim_empty_iff)
  then have h: "handleAddOrEdit J s = s" by (simp add: handleAddOrEdit_def)
  have "settled s \<Longrightarrow> render J s = s"
    by (simp add: settled_def render_def useFetch_def)
  with t h show ?thesis
    by (simp add: on_submit_def notes_render)
qed

theorem empty_submit_is_noop_witness:
  "list_all is_WhiteSpace (input (editing_app\<lparr>input := [0x20, 0x3000, 0x09]\<rparr>))
   \<and> settled (editing_app\<lparr>input := [0x20, 0x3000, 0x09]\<rparr>)
   \<and> step note_json Submit (editing_app\<lparr>input := [0x20, 0x3000, 0x09]\<rparr>) =
       editing_app\<lparr>input := [0x20, 0x3000, 0x09]\<rparr>
   \<and> list_all is_WhiteSpace (input mounted_app)
   \<and> handleAddOrEdit note_json mounted_app = mounted_app"
proof -
  let ?s = "editing_app\<lparr>input := [0x20, 0x3000, 0x09]\<rparr>"
  have h1: "list_all is_WhiteSpace (input ?s)"
    by (simp add: is_WhiteSpace_def)
  have h2: "settled ?s"
    by (simp add: settled_def editing_app_eval)
  have h3: "list_all is_WhiteSpace (input mounted_app)"
    by (simp add: mounted_app_eval)
  from empty_submit_is_noop [OF h1, of note_json] empty_submit_is_noop [OF h3, of note_json]
    h1 h2 h3
  show ?thesis by simp
qed

subsection \<open>Requesting an edit\<close>

text \<open>
  C9.  \<^verbatim>\<open>handleEdit\<close> does not guard the lookup: for an id that no note of the list
  carries, \<^verbatim>\<open>find\<close> yields \<^verbatim>\<open>undefined\<close> and reading its \<^verbatim>\<open>text\<close> throws a TypeError
  before any state is set.  The call is not a no-op that returns normally.
\<close>

theorem handleEdit_missing_id_throws:
  assumes "X \<notin> note_id ` set (notes s)"
  shows "find (\<lambda>n. note_id n = X) (notes s) = None \<and> handleEdit X s = Inl TypeError"
proof -
  from assms have "find (\<lambda>n. note_id n = X) (notes s) = None"
    by (auto simp: find_None_iff)
  then show ?thesis by (simp add: handleEdit_def)
qed

theorem handleEdit_missing_id_throws_witness:
  "3000 \<notin> note_id ` set (notes mounted_app) \<and> handleEdit 3000 mounted_app = Inl TypeError"
proof -
  have h: "3000 \<notin> note_id ` set (notes mounted_app)"
    by (simp add: mounted_app_eval stored_notes_def)
  from handleEdit_missing_id_throws [OF h] h show ?thesis by simp
qed

subsection \<open>Loading and saving\<close>

text \<open>
  C5.  The initialiser of \<^verbatim>\<open>useLocalStorage\<close> returns the default when the slot is
  absent, and when the stored text does not parse (the exception is caught); so the
  component mounted on a storage without the notes slot starts with the empty list.
\<close>

theorem load_falls_back_to_default:
  "(items st key = None \<longrightarrow> useLocalStorage_init J st key d = d)
   \<and> (\<forall>item. items st key = Some item \<and> parse J item = None \<longrightarrow>
         useLocalStorage_init J st key d = d)
   \<and> (items st notes_key = None \<longrightarrow> notes (mount J st now) = [])"
  by (auto simp: useLocalStorage_init_def getItem_def mount_def render_def useFetch_def Let_def)

theorem load_falls_back_to_default_witness:
  "items empty_storage notes_key = None
   \<and> useLocalStorage_init note_json empty_storage notes_key stored_notes = stored_notes
   \<and> notes (mount note_json empty_storage 0) = []
   \<and> items (empty_storage\<lparr>items := [notes_key \<mapsto> js ''[{oops'']\<rparr>) notes_key = Some (js ''[{oops'')
   \<and> parse note_json (js ''[{oops'') = None
   \<and> useLocalStorage_init note_json (empty_storage\<lparr>items := [notes_key \<mapsto> js ''[{oops'']\<rparr>)
        notes_key stored_notes = stored_notes"
proof -
  let ?bad = "empty_storage\<lparr>items := [notes_key \<mapsto> js ''[{oops'']\<rparr>"
  have h1: "items empty_storage notes_key = None"
    by (simp add: empty_storage_def)
  have h2: "items ?bad notes_key = Some (js ''[{oops'')"
    by simp
  have h3: "parse note_json (js ''[{oops'') = None"
    by (simp add: json_eval)
  from load_falls_back_to_default [of empty_storage notes_key note_json stored_notes 0]
    load_falls_back_to_default [of ?bad notes_key note_json stored_notes 0] h1 h2 h3
  show ?thesis by simp
qed

text \<open>
  C4.  Saving a list \<open>L\<close> with \<^verbatim>\<open>setValue\<close> and then running the initialiser on the same
  slot returns \<open>L\<close>, whatever the default and whatever the slot held before, when the
  storage takes the write and the platform's codec reads back what it wrote for \<open>L\<close>
  (a text that is not the empty string).  The codec for note lists defined above does
  so for every list.
\<close>

theorem save_then_load_roundtrip:
  assumes "\<not> denied st"
  shows "(fits st key (stringify J L) \<and> stringify J L \<noteq> [] \<and> parse J (stringify J L) = Some L
      \<longrightarrow> useLocalStorage_init J (snd (setValue J key (Plain L) (old, st))) key d = L
        \<and> useLocalStorage_init J (snd (setValue J key (Updater (\<lambda>prev. L)) (old, st))) key d = L)
    \<and> (fits st key (notes_to_json ns)
      \<longrightarrow> useLocalStorage_init note_json
            (snd (setValue note_json key (Plain ns) (old', st))) key d' = ns)"
proof -
  have "useLocalStorage_init note_json
      (snd (setValue note_json key (Plain ns) (old', st))) key d' = ns"
    if "fits st key (notes_to_json ns)"
    using assms that note_json_roundtrip [of ns]
    by (simp add: useLocalStorage_init_def getItem_def setValue_def setItem_def)
      (simp add: note_json_def)
  with assms show ?thesis
    by (simp add: useLocalStorage_init_def getItem_def setValue_def setItem_def)
qed

theorem save_then_load_roundtrip_witness:
  "\<not> denied empty_storage \<and> fits empty_storage notes_key (stringify note_json stored_notes)
   \<and> stringify note_json stored_notes \<noteq> []
   \<and> parse note_json (stringify note_json stored_notes) = Some stored_notes
   \<and> useLocalStorage_init note_json
        (snd (setValue note_json notes_key (Plain stored_notes) ([], empty_storage))) notes_key []
       = stored_notes"
proof -
  have h1: "\<not> denied empty_storage"
    by (simp add: empty_storage_def)
  have h2: "fits empty_storage notes_key (stringify note_json stored_notes)"
    by (simp add: empty_storage_def)
  have h3: "stringify note_json stored_notes \<noteq> []"
    by (simp add: note_json_def notes_to_json_def)
  have h4: "parse note_json (stringify note_json stored_notes) = Some stored_notes"
    by (simp add: stored_notes_def json_eval)
  from save_then_load_roundtrip [OF h1, of notes_key note_json stored_notes "[]" "[]"]
    h1 h2 h3 h4
  show ?thesis by simp
qed

subsection \<open>The notifier\<close>

lemma begin_submit_settled:
  "settled s \<Longrightarrow> settled (begin_submit J s) \<and> requests (begin_submit J s) = requests s"
  by (simp add: begin_submit_def Let_def settled_def handleAddOrEdit_effect)

text \<open>A submit that passes the guard is the submit alone followed by its transition render.\<close>

lemma submit_is_begin_then_render:
  "trim (input s) \<noteq> [] \<Longrightarrow> step J Submit s = step J TransitionRender (step J BeginSubmit s)"
  by (simp add: on_submit_def)

text \<open>
  With nothing waiting in the queue, that is the render of the state that the handler's
  calls lead to.
\<close>

lemma committed_is_handler_state:
  assumes "pending s = []" and "trim (input s) \<noteq> []"
  shows "apply_pending (begin_submit J s) = handleAddOrEdit J s"
  using assms
  by (intro app.equality)
    (simp_all add: apply_pending_def begin_submit_def handler_defs split: option.splits)

lemma submit_renders_handler_state:
  assumes "pending s = []"
  shows "step J Submit s = render J (handleAddOrEdit J s)"
proof (cases "trim (input s) = []")
  case True
  then show ?thesis by (simp add: on_submit_def handleAddOrEdit_def)
next
  case False
  with committed_is_handler_state [OF assms False, of J] show ?thesis
    by (simp add: on_submit_def transition_render_def)
qed

lemma settled_step: "settled s \<Longrightarrow> settled (step J e s)"
proof (cases e)
  case (Change v)
  assume "settled s"
  then have "settled (handleInput v s)"
    by (simp add: settled_def handleInput_def clearTimeout_def setTimeout_def Let_def)
  with Change show ?thesis by (simp add: on_change_def settled_render)
next
  case (Edit i)
  assume "settled s"
  with Edit show ?thesis
    by (simp add: on_edit_def settled_render split: sum.splits)
next
  case (Elapse t)
  assume "settled s"
  with Elapse elapse_settled [of s J t] show ?thesis by simp
next
  case BeginSubmit
  assume "settled s"
  with BeginSubmit begin_submit_settled [of s J] show ?thesis by simp
qed (simp_all add: on_submit_def on_delete_def transition_render_def settled_render Let_def)

text \<open>
  C8, as stated: after every mutation exactly one request is sent, with the list after
  the mutation as its body.  The updates of a submit wait for the transition render, and
  a delete that is handled before that render filters the list of the last render: the
  user types \<^verbatim>\<open>c\<close>, submits, and deletes the note 1000 before the transition render.
  The two mutations are followed by one request, whose body is the list without the
  note 1000 and without the new note; the list after the add is never sent.
\<close>

theorem one_request_per_mutation_counterexample:
  "mutates BeginSubmit typing_app
   \<and> notes (handleAddOrEdit note_json typing_app) =
       [\<lparr>note_id = 1000, note_text = js ''a''\<rparr>, \<lparr>note_id = 2000, note_text = js ''b''\<rparr>,
        \<lparr>note_id = 5100, note_text = js ''c''\<rparr>]
   \<and> mutates (Delete 1000) (step note_json BeginSubmit typing_app)
   \<and> requests typing_app = []
   \<and> requests (step note_json (Elapse 6000) (step note_json TransitionRender
        (step note_json (Delete 1000) (step note_json BeginSubmit typing_app)))) =
       [post_request note_json [\<lparr>note_id = 2000, note_text = js ''b''\<rparr>]]
   \<and> notes (step note_json (Elapse 6000) (step note_json TransitionRender
        (step note_json (Delete 1000) (step note_json BeginSubmit typing_app)))) =
       [\<lparr>note_id = 2000, note_text = js ''b''\<rparr>]
   \<and> pending (step note_json (Elapse 6000) (step note_json TransitionRender
        (step note_json (Delete 1000) (step note_json BeginSubmit typing_app)))) = []
   \<and> timers (step note_json (Elapse 6000) (step note_json TransitionRender
        (step note_json (Delete 1000) (step note_json BeginSubmit typing_app)))) = []"
  by (simp add: typing_app_eval stored_notes_def begin_submit_def handler_defs on_delete_def
      rebase_def transition_render_def apply_pending_def render_def useFetch_def elapse_def
      run_callback_def post_request_def trim_def is_WhiteSpace_def js_def)

text \<open>
  C8, amended.  From a rendered state, an event whose updates are rendered before the
  next event (a delete, a submit together with its transition render, an edit request,
  a keystroke, the passing of time) is followed by exactly one new request when it is a
  mutation (a delete, or a submit that passes the guard: an add or an edit), and by
  none otherwise; the request is a POST to the fixed address whose body is the
  serialisation of the list after the mutation.  Timer callbacks, the reset of the flag
  among them, send nothing, and the effect never sends while its trigger is false.
\<close>

theorem one_request_per_rendered_mutation:
  assumes "settled s" and "e \<noteq> BeginSubmit" and "e \<noteq> TransitionRender"
  shows "settled (step J e s)
    \<and> requests (step J e s) =
        requests s @ (if mutates e s then [post_request J (notes (step J e s))] else [])
    \<and> requests (useFetch J url dat False s') = requests s'"
proof -
  have idle: "requests (useFetch J url dat False s') = requests s'"
    by (simp add: useFetch_def Let_def)
  have "requests (step J e s) =
      requests s @ (if mutates e s then [post_request J (notes (step J e s))] else [])"
  proof (cases e)
    case (Change v)
    from assms(1) have "settled (handleInput v s)"
      by (simp add: settled_def handleInput_def clearTimeout_def setTimeout_def Let_def)
    then have "render J (handleInput v s) = handleInput v s" by (rule render_settled)
    with Change show ?thesis
      by (simp add: on_change_def)
        (simp add: handleInput_def clearTimeout_def setTimeout_def Let_def)
  next
    case Submit
    show ?thesis
    proof (cases "trim (input s) = []")
      case True
      with assms(1) Submit show ?thesis
        by (simp add: on_submit_def render_settled)
    next
      case False
      with requests_on_submit [OF assms(1) False, of J] Submit show ?thesis
        by (simp add: notes_on_submit)
    qed
  next
    case (Edit i)
    show ?thesis
    proof (cases "handleEdit i s")
      case (Inl err)
      with Edit show ?thesis by (simp add: on_edit_def)
    next
      case (Inr s')
      with assms(1) have "settled s'" "requests s' = requests s"
        by (auto simp: handleEdit_def setInput_def settled_def split: option.splits)
      then have "render J (rebase [SetInput (input s'), SetEditId (editId s')] s') =
          rebase [SetInput (input s'), SetEditId (editId s')] s'"
        "requests (rebase [SetInput (input s'), SetEditId (editId s')] s') = requests s"
        by (simp_all add: render_settled settled_rebase rebase_fields)
      with Inr Edit show ?thesis by (simp add: on_edit_def)
    qed
  next
    case (Delete i)
    let ?h = "handleDelete J i s"
    let ?s' = "rebase [SetStoredValue (notes ?h) (Some (notesIdentity ?h)), SetSync True] ?h"
    have "notesIdentity ?s' = Suc (notesIdentity s)" "sync ?s'"
      "effectDeps ?s' = effectDeps s" "requests ?s' = requests s"
      by (simp_all add: rebase_fields) (simp_all add: handler_defs)
    from render_after_setNotes [OF assms(1) this, of J] Delete show ?thesis
      by (simp add: on_delete_def Let_def notes_render)
  next
    case (Elapse t)
    with elapse_settled [OF assms(1), of J t] show ?thesis by simp
  next
    case BeginSubmit
    with assms(2) show ?thesis by simp
  next
    case TransitionRender
    with assms(3) show ?thesis by simp
  qed
  with idle settled_step [OF assms(1), of J e] show ?thesis by simp
qed

theorem one_request_per_rendered_mutation_witness:
  "settled typing_app
   \<and> requests (step note_json Submit typing_app) =
       [post_request note_json
          [\<lparr>note_id = 1000, note_text = js ''a''\<rparr>, \<lparr>note_id = 2000, note_text = js ''b''\<rparr>,
           \<lparr>note_id = 5100, note_text = js ''c''\<rparr>]]
   \<and> requests (step note_json (Elapse 6000) (step note_json Submit typing_app)) =
       requests (step note_json Submit typing_app)"
proof -
  have h: "settled typing_app"
    by (simp add: settled_def typing_app_eval)
  have n: "notes (step note_json Submit typing_app) =
      [\<lparr>note_id = 1000, note_text = js ''a''\<rparr>, \<lparr>note_id = 2000, note_text = js ''b''\<rparr>,
       \<lparr>note_id = 5100, note_text = js ''c''\<rparr>]"
    by (simp add: notes_on_submit handler_defs typing_app_eval stored_notes_def
        trim_def js_def is_WhiteSpace_def)
  have m: "mutates Submit typing_app"
    by (simp add: typing_app_eval trim_def js_def is_WhiteSpace_def)
  from one_request_per_rendered_mutation [OF h, of Submit note_json]
  have a: "settled (step note_json Submit typing_app)"
    and b: "requests (step note_json Submit typing_app) =
      requests typing_app @ [post_request note_json (notes (step note_json Submit typing_app))]"
    using m by simp_all
  from one_request_per_rendered_mutation [OF a, of "Elapse 6000" note_json]
  have c: "requests (step note_json (Elapse 6000) (step note_json Submit typing_app)) =
      requests (step note_json Submit typing_app)"
    by simp
  from h b c n show ?thesis
    by (simp add: typing_app_eval)
qed

subsection \<open>Submitting with a dangling edit id\<close>

text \<open>
  C10.  When \<open>editId\<close> holds an id that no note of the list carries and the committed
  input does not trim to the empty string, a submit leaves the note list as it was,
  resets \<open>editId\<close>, clears the input, raises the sync flag and schedules its reset, and
  the request with the unchanged list is sent.
\<close>

theorem dangling_edit_submit:
  assumes "editId s = Some X" and "X \<notin> note_id ` set (notes s)"
    and "trim (input s) \<noteq> []" and "settled s"
  shows "notes (step J Submit s) = notes s
    \<and> editId (step J Submit s) = None
    \<and> input (step J Submit s) = []
    \<and> sync (step J Submit s)
    \<and> timers (step J Submit s) =
        timers s @ [\<lparr>timer_id = nextTimerId s, due = clock s + 500, callback = ResetSync\<rparr>]
    \<and> requests (step J Submit s) = requests s @ [post_request J (notes s)]"
proof -
  let ?s' = "handleAddOrEdit J s"
  from assms(2) have same:
    "map (\<lambda>n. if note_id n = X then n\<lparr>note_text := input s\<rparr> else n) (notes s) = notes s"
    by (intro map_idI) auto
  from assms(1,3) same have fields: "notes ?s' = notes s"
    "timers ?s' = timers s @ [\<lparr>timer_id = nextTimerId s, due = clock s + 500, callback = ResetSync\<rparr>]"
    by (simp_all add: handler_defs)
  from assms(1) have edit: "editId s \<noteq> None" by simp
  have shown: "input (on_submit J s) = []" "sync (on_submit J s)"
    "timers (on_submit J s) = timers ?s'"
    using assms(3)
    by (simp_all add: on_submit_def transition_render_def render_fields committed_submit)
  from requests_on_submit [OF assms(4,3), of J] editId_on_submit [OF assms(3) edit, of J]
    notes_on_submit [of J s] shown fields
  show ?thesis by simp
qed

theorem dangling_edit_submit_witness:
  "editId dangling_app = Some 1000 \<and> 1000 \<notin> note_id ` set (notes dangling_app)
   \<and> trim (input dangling_app) \<noteq> [] \<and> settled dangling_app
   \<and> notes (step note_json Submit dangling_app) = [\<lparr>note_id = 2000, note_text = js ''b''\<rparr>]
   \<and> editId (step note_json Submit dangling_app) = None
   \<and> input (step note_json Submit dangling_app) = []
   \<and> sync (step note_json Submit dangling_app)
   \<and> requests (step note_json Submit dangling_app) =
       [post_request note_json [\<lparr>note_id = 2000, note_text = js ''b''\<rparr>],
        post_request note_json [\<lparr>note_id = 2000, note_text = js ''b''\<rparr>]]"
proof -
  have h1: "editId dangling_app = Some 1000"
    by (simp add: dangling_app_eval)
  have h2: "1000 \<notin> note_id ` set (notes dangling_app)"
    by (simp add: dangling_app_eval)
  have h3: "trim (input dangling_app) \<noteq> []"
    by (simp add: dangling_app_eval trim_def js_def is_WhiteSpace_def)
  have h4: "settled dangling_app"
    by (simp add: dangling_app_eval)
  from dangling_edit_submit [OF h1 h2 h3 h4, of note_json] h1 h2 h3 h4 show ?thesis
    by (simp add: dangling_app_eval)
qed

subsection \<open>The debounced input\<close>

text \<open>
  A state is summarised, for the debounce, by its pending timers, the ref, the next
  timer id, the clock, the committed input and the trace of its updates.
\<close>

lemma on_change_fields:
  "timers (on_change J v s) =
     filter (\<lambda>t. Some (timer_id t) \<noteq> debounceTimeout s) (timers s) @
     [\<lparr>timer_id = nextTimerId s, due = clock s + 100, callback = CommitInput v\<rparr>]"
  "debounceTimeout (on_change J v s) = Some (nextTimerId s)"
  "nextTimerId (on_change J v s) = Suc (nextTimerId s)"
  "clock (on_change J v s) = clock s"
  "input (on_change J v s) = input s"
  "inputTrace (on_change J v s) = inputTrace s"
  by (simp_all add: on_change_def render_fields handleInput_def clearTimeout_def
      setTimeout_def Let_def)

lemma elapse_pending:
  assumes "timers s = [tm]" and "t < due tm" and "clock s \<le> t"
  shows "timers (elapse J t s) = [tm]" "clock (elapse J t s) = t"
    "input (elapse J t s) = input s" "inputTrace (elapse J t s) = inputTrace s"
    "debounceTimeout (elapse J t s) = debounceTimeout s"
    "nextTimerId (elapse J t s) = nextTimerId s"
  using assms by (simp_all add: elapse_def)

lemma elapse_due:
  assumes "timers s = [tm]" and "callback tm = CommitInput v" and "due tm \<le> t"
    and "clock s \<le> due tm"
  shows "timers (elapse J t s) = []" "clock (elapse J t s) = t"
    "input (elapse J t s) = v" "inputTrace (elapse J t s) = inputTrace s @ [(due tm, v)]"
  using assms
  by (simp_all add: elapse_def run_callback_def render_fields rebase_fields setInput_def)

text \<open>
  C7.  Keystrokes at 0, 30, 60 and 90 ms, each cancelling the pending timer and setting
  a new one of 100 ms: the committed input is not updated up to any time before 190 ms,
  and from 190 ms on it has been updated exactly once, at 190 ms, to the value of the
  last keystroke, and no timer is left pending.
\<close>

theorem debounce_commits_last_keystroke_once:
  assumes "clock s = 0" and "timers s = []"
  shows "inputTrace (four_keystrokes J v1 v2 v3 v4 s) = inputTrace s
    \<and> (\<forall>t. 90 \<le> t \<and> t < 190 \<longrightarrow>
          inputTrace (step J (Elapse t) (four_keystrokes J v1 v2 v3 v4 s)) = inputTrace s
          \<and> input (step J (Elapse t) (four_keystrokes J v1 v2 v3 v4 s)) = input s)
    \<and> (\<forall>t. 190 \<le> t \<longrightarrow>
          inputTrace (step J (Elapse t) (four_keystrokes J v1 v2 v3 v4 s)) =
            inputTrace s @ [(190, v4)]
          \<and> input (step J (Elapse t) (four_keystrokes J v1 v2 v3 v4 s)) = v4
          \<and> timers (step J (Elapse t) (four_keystrokes J v1 v2 v3 v4 s)) = [])"
proof -
  define n where "n = nextTimerId s"
  define a1 where "a1 = on_change J v1 s"
  define b1 where "b1 = elapse J 30 a1"
  define a2 where "a2 = on_change J v2 b1"
  define b2 where "b2 = elapse J 60 a2"
  define a3 where "a3 = on_change J v3 b2"
  define b3 where "b3 = elapse J 90 a3"
  define a4 where "a4 = on_change J v4 b3"
  have a1: "timers a1 = [\<lparr>timer_id = n, due = 100, callback = CommitInput v1\<rparr>]"
    "debounceTimeout a1 = Some n" "nextTimerId a1 = Suc n" "clock a1 = 0"
    "input a1 = input s" "inputTrace a1 = inputTrace s"
    using assms by (simp_all add: a1_def n_def on_change_fields)
  have b1: "timers b1 = [\<lparr>timer_id = n, due = 100, callback = CommitInput v1\<rparr>]"
    "debounceTimeout b1 = Some n" "nextTimerId b1 = Suc n" "clock b1 = 30"
    "input b1 = input s" "inputTrace b1 = inputTrace s"
    using elapse_pending [OF a1(1), of 30 J] a1 by (simp_all add: b1_def)
  have a2: "timers a2 = [\<lparr>timer_id = Suc n, due = 130, callback = CommitInput v2\<rparr>]"
    "debounceTimeout a2 = Some (Suc n)" "nextTimerId a2 = Suc (Suc n)" "clock a2 = 30"
    "input a2 = input s" "inputTrace a2 = inputTrace s"
    using b1 by (simp_all add: a2_def on_change_fields)
  have b2: "timers b2 = [\<lparr>timer_id = Suc n, due = 130, callback = CommitInput v2\<rparr>]"
    "debounceTimeout b2 = Some (Suc n)" "nextTimerId b2 = Suc (Suc n)" "clock b2 = 60"
    "input b2 = input s" "inputTrace b2 = inputTrace s"
    using elapse_pending [OF a2(1), of 60 J] a2 by (simp_all add: b2_def)
  have a3: "timers a3 = [\<lparr>timer_id = Suc (Suc n), due = 160, callback = CommitInput v3\<rparr>]"
    "debounceTimeout a3 = Some (Suc (Suc n))" "nextTimerId a3 = Suc (Suc (Suc n))"
    "clock a3 = 60" "input a3 = input s" "inputTrace a3 = inputTrace s"
    using b2 by (simp_all add: a3_def on_change_fields)
  have b3: "timers b3 = [\<lparr>timer_id = Suc (Suc n), due = 160, callback = CommitInput v3\<rparr>]"
    "debounceTimeout b3 = Some (Suc (Suc n))" "nextTimerId b3 = Suc (Suc (Suc n))"
    "clock b3 = 90" "input b3 = input s" "inputTrace b3 = inputTrace s"
    using elapse_pending [OF a3(1), of 90 J] a3 by (simp_all add: b3_def)
  have a4: "timers a4 = [\<lparr>timer_id = Suc (Suc (Suc n)), due = 190, callback = CommitInput v4\<rparr>]"
    "clock a4 = 90" "input a4 = input s" "inputTrace a4 = inputTrace s"
    using b3 by (simp_all add: a4_def on_change_fields)
  have run: "four_keystrokes J v1 v2 v3 v4 s = a4"
    by (simp add: four_keystrokes_def a4_def b3_def a3_def b2_def a2_def b1_def a1_def)
  have early: "inputTrace (elapse J t a4) = inputTrace s \<and> input (elapse J t a4) = input s"
    if "90 \<le> t" "t < 190" for t
    using elapse_pending [OF a4(1), of t J] a4 that by simp
  have late: "inputTrace (elapse J t a4) = inputTrace s @ [(190, v4)]
      \<and> input (elapse J t a4) = v4 \<and> timers (elapse J t a4) = []"
    if "190 \<le> t" for t
    using elapse_due [OF a4(1), of v4 t J] a4 that by simp
  from early late a4 show ?thesis
    by (simp add: run)
qed

theorem debounce_commits_last_keystroke_once_witness:
  "clock (mount note_json empty_storage 0) = 0 \<and> timers (mount note_json empty_storage 0) = []
   \<and> inputTrace (step note_json (Elapse 189)
        (four_keystrokes note_json (js ''k'') (js ''ka'') (js ''kab'') (js ''kabar'')
          (mount note_json empty_storage 0))) = []
   \<and> inputTrace (step note_json (Elapse 190)
        (four_keystrokes note_json (js ''k'') (js ''ka'') (js ''kab'') (js ''kabar'')
          (mount note_json empty_storage 0))) = [(190, js ''kabar'')]
   \<and> input (step note_json (Elapse 1000)
        (four_keystrokes note_json (js ''k'') (js ''ka'') (js ''kab'') (js ''kabar'')
          (mount note_json empty_storage 0))) = js ''kabar''"
proof -
  let ?s = "mount note_json empty_storage 0"
  have h1: "clock ?s = 0" and h2: "timers ?s = []" and h3: "inputTrace ?s = []"
    by (simp_all add: mount_def render_fields)
  from debounce_commits_last_keystroke_once [OF h1 h2, of note_json "js ''k''" "js ''ka''"
      "js ''kab''" "js ''kabar''"] h1 h2 h3
  show ?thesis by simp
qed

end
